theory Spec2Isabelle
  imports Complex_Main "HOL-Library.Word" "HOL-Library.AList"
begin

text \<open>
  A model of \<open>extract_json_from_bgl.py\<close>, which walks a BGL archive (header, record
  descriptors, ModelData records, object entries, RIFF payloads, GLBD chunks, GLB blocks) and
  writes the JSON chunk of every GLB block it finds to a file of its own. The model follows
  the source function by function and loop by loop; the theorems are about what
  \<open>process_bgl_file\<close> and \<open>extract_json_from_glb\<close> do on every byte buffer.
\<close>

section \<open>Bytes, slices and fixed-width reads\<close>

text \<open>
  A Python \<open>bytes\<close> object is a list of 8-bit words. Offsets, sizes and counters are
  Python integers that never become negative in this program, so they are naturals.
  \<open>pyslice xs a b\<close> is Python's \<open>xs[a:b]\<close> for non-negative \<open>a\<close> and \<open>b\<close>: it never
  raises and is cut at the end of the list.
\<close>

type_synonym byte = "8 word"
type_synonym bytes = "byte list"

datatype error = StructError

definition pyslice :: "'a list \<Rightarrow> nat \<Rightarrow> nat \<Rightarrow> 'a list" where
  "pyslice xs a b = take (b - a) (drop a xs)"

text \<open>
  \<open>struct.unpack("<I", s)\<close> raises \<open>struct.error\<close> unless \<open>s\<close> has exactly four bytes;
  on four bytes it gives the little-endian value.
\<close>

fun unpack_u32 :: "bytes \<Rightarrow> error + nat" where
  "unpack_u32 [b0, b1, b2, b3] =
     Inr (unat b0 + 256 * unat b1 + 65536 * unat b2 + 16777216 * unat b3)"
| "unpack_u32 _ = Inl StructError"

definition read_uint32 :: "bytes \<Rightarrow> nat \<Rightarrow> error + nat" where
  "read_uint32 data offset = unpack_u32 (pyslice data offset (offset + 4))"

definition validate_bgl_header :: "bytes \<Rightarrow> bool" where
  "validate_bgl_header data =
     (let magic1 = pyslice data 0 4;
          magic2 = pyslice data 0x10 0x14;
          expected1 = [0x01, 0x02, 0x92, 0x19];
          expected2 = [0x03, 0x18, 0x05, 0x08]
      in magic1 = expected1 \<and> magic2 = expected2)"

definition clean_json_string :: "bytes \<Rightarrow> bytes" where
  "clean_json_string json_bytes = map (\<lambda>c. if c < 0x20 \<or> c > 0x7E then 0x20 else c) json_bytes"

section \<open>Library operations used by the decoder\<close>

text \<open>
  A Python \<open>str\<close> is a list of code points. \<open>utf8_decode_ignore\<close> is
  \<open>bytes.decode("utf-8", errors="ignore")\<close>: an invalid start byte is dropped; when a
  continuation byte is invalid the bytes read so far are dropped and decoding resumes at the
  offending byte; a sequence cut off by the end of the input is dropped.
\<close>

type_synonym str = "nat list"

definition is_cont :: "byte \<Rightarrow> bool" where
  "is_cont c = (0x80 \<le> c \<and> c \<le> 0xBF)"

fun utf8_decode_ignore :: "bytes \<Rightarrow> str" where
  "utf8_decode_ignore [] = []"
| "utf8_decode_ignore (c # cs) =
     (if c < 0x80 then unat c # utf8_decode_ignore cs
      else if c < 0xC2 then utf8_decode_ignore cs
      else if c < 0xE0 then
        (case cs of
           [] \<Rightarrow> []
         | c2 # r2 \<Rightarrow>
             if is_cont c2
             then ((unat c - 0xC0) * 64 + (unat c2 - 0x80)) # utf8_decode_ignore r2
             else utf8_decode_ignore cs)
      else if c < 0xF0 then
        (case cs of
           [] \<Rightarrow> []
         | c2 # r2 \<Rightarrow>
             if \<not> is_cont c2 \<or> (c = 0xE0 \<and> c2 < 0xA0) \<or> (c = 0xED \<and> 0xA0 \<le> c2)
             then utf8_decode_ignore cs
             else (case r2 of
                     [] \<Rightarrow> []
                   | c3 # r3 \<Rightarrow>
                       if is_cont c3
                       then ((unat c - 0xE0) * 4096 + (unat c2 - 0x80) * 64 + (unat c3 - 0x80))
                              # utf8_decode_ignore r3
                       else utf8_decode_ignore r2))
      else if c < 0xF5 then
        (case cs of
           [] \<Rightarrow> []
         | c2 # r2 \<Rightarrow>
             if \<not> is_cont c2 \<or> (c = 0xF0 \<and> c2 < 0x90) \<or> (c = 0xF4 \<and> 0x90 \<le> c2)
             then utf8_decode_ignore cs
             else (case r2 of
                     [] \<Rightarrow> []
                   | c3 # r3 \<Rightarrow>
                       if \<not> is_cont c3 then utf8_decode_ignore r2
                       else (case r3 of
                               [] \<Rightarrow> []
                             | c4 # r4 \<Rightarrow>
                                 if is_cont c4
                                 then ((unat c - 0xF0) * 262144 + (unat c2 - 0x80) * 4096
                                         + (unat c3 - 0x80) * 64 + (unat c4 - 0x80))
                                        # utf8_decode_ignore r4
                                 else utf8_decode_ignore r3)))
      else utf8_decode_ignore cs)"

text \<open>\<open>str.isspace\<close> on one code point, and \<open>str.strip()\<close>.\<close>

definition py_isspace :: "nat \<Rightarrow> bool" where
  "py_isspace c =
     ((0x09 \<le> c \<and> c \<le> 0x0D) \<or> (0x1C \<le> c \<and> c \<le> 0x20) \<or> c = 0x85 \<or> c = 0xA0
      \<or> c = 0x1680 \<or> (0x2000 \<le> c \<and> c \<le> 0x200A) \<or> c = 0x2028 \<or> c = 0x2029
      \<or> c = 0x202F \<or> c = 0x205F \<or> c = 0x3000)"

definition py_strip :: "str \<Rightarrow> str" where
  "py_strip s = rev (dropWhile py_isspace (rev (dropWhile py_isspace s)))"

text \<open>
  The values \<open>json.loads\<close> can return, and Python's truth value of each (the test
  \<open>if json_obj:\<close>). A float is a rational, an infinity or a NaN.
\<close>

datatype pyfloat = Finite rat | Infinity bool | NaN

datatype pyval =
    PNone
  | PBool bool
  | PInt int
  | PFloat pyfloat
  | PStr str
  | PList "pyval list"
  | PDict "(str \<times> pyval) list"

fun truthy :: "pyval \<Rightarrow> bool" where
  "truthy PNone = False"
| "truthy (PBool b) = b"
| "truthy (PInt n) = (n \<noteq> 0)"
| "truthy (PFloat f) = (f \<noteq> Finite 0)"
| "truthy (PStr s) = (s \<noteq> [])"
| "truthy (PList xs) = (xs \<noteq> [])"
| "truthy (PDict kvs) = (kvs \<noteq> [])"

text \<open>
  \<open>json.loads\<close> belongs to the standard library. The functions below take it as the
  parameter \<open>loads\<close>: \<open>None\<close> stands for any exception it raises, which the
  \<open>except Exception\<close> clause of \<open>extract_json_from_glb\<close> catches.
\<close>

type_synonym json_loads = "str \<Rightarrow> pyval option"

section \<open>The decoder\<close>

definition extract_json_from_glb :: "json_loads \<Rightarrow> bytes \<Rightarrow> error + pyval" where
  "extract_json_from_glb loads glb_bytes =
     (if length glb_bytes < 0x14 then Inr PNone
      else
        (case read_uint32 glb_bytes 0x0C of
           Inl e \<Rightarrow> Inl e
         | Inr json_length \<Rightarrow>
            let json_start = 0x14;
                json_end = json_start + json_length
            in if json_end > length glb_bytes then Inr PNone
               else
                 let json_bytes = clean_json_string (pyslice glb_bytes json_start json_end);
                     json_str = py_strip (utf8_decode_ignore json_bytes)
                 in (case loads json_str of
                       None \<Rightarrow> Inr PNone
                     | Some json_obj \<Rightarrow> Inr json_obj)))"

section \<open>The walker\<close>

text \<open>
  The output of one run: the count that \<open>process_bgl_file\<close> returns and the files it
  writes, in order, each as the object's identifier in hexadecimal, the ordinal in the file
  name and the value dumped. The archive's stem is the same in every file name. The
  argument \<open>data\<close> of \<open>process_bgl_file\<close> is the content of the file, read at lines
  80 and 81 of the source. Messages printed are left out, and opening and writing an output
  file is taken to succeed: the file system is not part of the model.
\<close>

record out =
  json_count :: nat
  written :: "(string \<times> nat \<times> pyval) list"

definition hex_digit :: "nat \<Rightarrow> char" where
  "hex_digit n = ''0123456789abcdef'' ! n"

definition hex :: "bytes \<Rightarrow> string" where
  "hex bs = concat (map (\<lambda>c. [hex_digit (unat c div 16), hex_digit (unat c mod 16)]) bs)"

definition GLBD :: bytes where
  "GLBD = [0x47, 0x4C, 0x42, 0x44]"

definition GLB0 :: bytes where
  "GLB0 = [0x47, 0x4C, 0x42, 0x00]"

definition RIFF :: bytes where
  "RIFF = [0x52, 0x49, 0x46, 0x46]"

text \<open>
  The loops are partial functions into \<open>option\<close>: \<open>None\<close> is a loop that never ends,
  \<open>Some (Inl e)\<close> an exception that leaves the loop, \<open>Some (Inr st)\<close> a normal end.
\<close>

text \<open>The scan of one GLBD payload for GLB blocks (the loop over \<open>j\<close>).\<close>

partial_function (option) block_scan ::
  "json_loads \<Rightarrow> bytes \<Rightarrow> string \<Rightarrow> nat \<Rightarrow> nat \<Rightarrow> nat \<Rightarrow> nat \<Rightarrow> out \<Rightarrow> (error + out) option" where
  "block_scan loads mdl_bytes guid i chunk_size j glb_index st =
     (if j < min (i + 8 + chunk_size) (length mdl_bytes) then
        if j + 8 > length mdl_bytes then Some (Inr st)
        else if pyslice mdl_bytes j (j + 4) = GLB0 then
          (case read_uint32 mdl_bytes (j + 4) of
             Inl e \<Rightarrow> Some (Inl e)
           | Inr glb_size \<Rightarrow>
               let glb_start = j + 8;
                   glb_end = glb_start + glb_size
               in if glb_end > length mdl_bytes
                  then block_scan loads mdl_bytes guid i chunk_size (j + 4) glb_index st
                  else
                    (case extract_json_from_glb loads (pyslice mdl_bytes glb_start glb_end) of
                       Inl e \<Rightarrow> Some (Inl e)
                     | Inr json_obj \<Rightarrow>
                         if truthy json_obj
                         then block_scan loads mdl_bytes guid i chunk_size (j + (8 + glb_size))
                                (glb_index + 1)
                                (st\<lparr>json_count := json_count st + 1,
                                    written := written st @ [(guid, glb_index, json_obj)]\<rparr>)
                         else block_scan loads mdl_bytes guid i chunk_size (j + (8 + glb_size))
                                glb_index st))
        else block_scan loads mdl_bytes guid i chunk_size (j + 4) glb_index st
      else Some (Inr st))"

declare block_scan.simps [code]

text \<open>
  The scan of one RIFF payload for GLBD chunks (the loop over \<open>i\<close>). The source's
  condition \<open>i < len(mdl_bytes) - 4\<close> is over integers; \<open>i + 4 < length mdl_bytes\<close> is the
  same condition over naturals.
\<close>

partial_function (option) chunk_scan ::
  "json_loads \<Rightarrow> bytes \<Rightarrow> string \<Rightarrow> nat \<Rightarrow> out \<Rightarrow> (error + out) option" where
  "chunk_scan loads mdl_bytes guid i st =
     (if i + 4 < length mdl_bytes then
        if pyslice mdl_bytes i (i + 4) = GLBD then
          if i + 8 > length mdl_bytes then Some (Inr st)
          else
            (case read_uint32 mdl_bytes (i + 4) of
               Inl e \<Rightarrow> Some (Inl e)
             | Inr chunk_size \<Rightarrow>
                 (case block_scan loads mdl_bytes guid i chunk_size (i + 8) 0 st of
                    None \<Rightarrow> None
                  | Some (Inl e) \<Rightarrow> Some (Inl e)
                  | Some (Inr st') \<Rightarrow> chunk_scan loads mdl_bytes guid (i + chunk_size + 4) st'))
        else chunk_scan loads mdl_bytes guid (i + 4) st
      else Some (Inr st))"

declare chunk_scan.simps [code]

text \<open>The loop over the object entries of one ModelData record.\<close>

partial_function (option) object_loop ::
  "json_loads \<Rightarrow> bytes \<Rightarrow> nat \<Rightarrow> nat \<Rightarrow> nat \<Rightarrow> nat \<Rightarrow> out \<Rightarrow> (error + out) option" where
  "object_loop loads data subrec_offset subrec_size objects_read bytes_read st =
     (if bytes_read < subrec_size then
        let obj_offset = subrec_offset + 24 * objects_read
        in if obj_offset + 24 > length data then Some (Inr st)
           else
             let guid = hex (pyslice data obj_offset (obj_offset + 16))
             in case read_uint32 data (obj_offset + 16) of
                  Inl e \<Rightarrow> Some (Inl e)
                | Inr start_model_data_offset \<Rightarrow>
                    (case read_uint32 data (obj_offset + 20) of
                       Inl e \<Rightarrow> Some (Inl e)
                     | Inr model_data_size \<Rightarrow>
                         let model_offset = subrec_offset + start_model_data_offset
                         in if model_offset + model_data_size > length data
                            then object_loop loads data subrec_offset subrec_size
                                   (objects_read + 1) (bytes_read + (model_data_size + 24)) st
                            else
                              let mdl_bytes =
                                    pyslice data model_offset (model_offset + model_data_size)
                              in if length mdl_bytes < 4 \<or> pyslice mdl_bytes 0 4 \<noteq> RIFF
                                 then object_loop loads data subrec_offset subrec_size
                                        (objects_read + 1) (bytes_read + (model_data_size + 24)) st
                                 else
                                   (case chunk_scan loads mdl_bytes guid 8 st of
                                      None \<Rightarrow> None
                                    | Some (Inl e) \<Rightarrow> Some (Inl e)
                                    | Some (Inr st') \<Rightarrow>
                                        object_loop loads data subrec_offset subrec_size
                                          (objects_read + 1)
                                          (bytes_read + (model_data_size + 24)) st'))
      else Some (Inr st))"

declare object_loop.simps [code]

text \<open>
  The loop \<open>for i in range(record_count)\<close> that collects the offsets of the ModelData
  records; the first argument counts the iterations left.
\<close>

fun find_model_data :: "nat \<Rightarrow> bytes \<Rightarrow> nat \<Rightarrow> nat list \<Rightarrow> error + nat list" where
  "find_model_data 0 data offset model_data_offsets = Inr model_data_offsets"
| "find_model_data (Suc n) data offset model_data_offsets =
     (if offset + 0x14 > length data then Inr model_data_offsets
      else
        case read_uint32 data offset of
          Inl e \<Rightarrow> Inl e
        | Inr record_type \<Rightarrow>
            (case read_uint32 data (offset + 0x0C) of
               Inl e \<Rightarrow> Inl e
             | Inr start_subsection \<Rightarrow>
                 (case read_uint32 data (offset + 0x10) of
                    Inl e \<Rightarrow> Inl e
                  | Inr record_size \<Rightarrow>
                      find_model_data n data (offset + 0x14)
                        (if record_type = 0x002B
                         then model_data_offsets @ [start_subsection]
                         else model_data_offsets))))"

text \<open>The loop \<open>for mdl_offset in model_data_offsets\<close>.\<close>

fun process_records :: "json_loads \<Rightarrow> bytes \<Rightarrow> nat list \<Rightarrow> out \<Rightarrow> (error + out) option" where
  "process_records loads data [] st = Some (Inr st)"
| "process_records loads data (mdl_offset # rest) st =
     (if mdl_offset + 12 > length data then process_records loads data rest st
      else
        case read_uint32 data (mdl_offset + 8) of
          Inl e \<Rightarrow> Some (Inl e)
        | Inr subrec_offset \<Rightarrow>
            (case read_uint32 data (mdl_offset + 12) of
               Inl e \<Rightarrow> Some (Inl e)
             | Inr subrec_size \<Rightarrow>
                 (case object_loop loads data subrec_offset subrec_size 0 0 st of
                    None \<Rightarrow> None
                  | Some (Inl e) \<Rightarrow> Some (Inl e)
                  | Some (Inr st') \<Rightarrow> process_records loads data rest st')))"

definition process_bgl_file :: "json_loads \<Rightarrow> bytes \<Rightarrow> (error + out) option" where
  "process_bgl_file loads data =
     (if length data < 0x38 then Some (Inr \<lparr>json_count = 0, written = []\<rparr>)
      else if \<not> validate_bgl_header data then Some (Inr \<lparr>json_count = 0, written = []\<rparr>)
      else
        case read_uint32 data 0x14 of
          Inl e \<Rightarrow> Some (Inl e)
        | Inr record_count \<Rightarrow>
            (case find_model_data record_count data 0x38 [] of
               Inl e \<Rightarrow> Some (Inl e)
             | Inr model_data_offsets \<Rightarrow>
                 process_records loads data model_data_offsets
                   \<lparr>json_count = 0, written = []\<rparr>))"

section \<open>Example inputs\<close>

text \<open>
  The examples below need a concrete \<open>json.loads\<close>. \<open>sample_loads\<close> reads the
  fragment of JSON they use: \<open>null\<close>, \<open>true\<close>, \<open>false\<close>, decimal integers, strings
  without escapes, arrays and objects, written without white space; a repeated key keeps its
  first position and takes the last value, as a Python \<open>dict\<close> does. It rejects every text
  outside the fragment, so it is used at concrete texts of the fragment only; the general
  theorems hold for every \<open>loads\<close>.
\<close>

definition ascii :: "string \<Rightarrow> str" where
  "ascii s = map of_char s"

definition is_digit :: "nat \<Rightarrow> bool" where
  "is_digit c = (0x30 \<le> c \<and> c \<le> 0x39)"

definition digits_value :: "str \<Rightarrow> int" where
  "digits_value ds = foldl (\<lambda>a d. 10 * a + (int d - 0x30)) 0 ds"

definition sample_int :: "str \<Rightarrow> (pyval \<times> str) option" where
  "sample_int s =
     (let neg = (take 1 s = [0x2D]);
          body = (if neg then drop 1 s else s);
          ds = takeWhile is_digit body;
          rest = dropWhile is_digit body
      in if ds = [] \<or> (length ds > 1 \<and> hd ds = 0x30) then None
         else if take 1 rest = [0x2E] \<or> take 1 rest = [0x65] \<or> take 1 rest = [0x45] then None
         else Some (PInt (if neg then - digits_value ds else digits_value ds), rest))"

definition sample_string :: "str \<Rightarrow> (str \<times> str) option" where
  "sample_string s =
     (case s of
        [] \<Rightarrow> None
      | c # r \<Rightarrow>
          let body = takeWhile (\<lambda>x. x \<noteq> 0x22) r
          in if c = 0x22 \<and> length body < length r
                \<and> list_all (\<lambda>x. 0x20 \<le> x \<and> x \<noteq> 0x5C) body
             then Some (body, drop (length body + 1) r)
             else None)"

fun sample_value :: "nat \<Rightarrow> str \<Rightarrow> (pyval \<times> str) option"
  and sample_items :: "nat \<Rightarrow> pyval list \<Rightarrow> str \<Rightarrow> (pyval \<times> str) option"
  and sample_members :: "nat \<Rightarrow> (str \<times> pyval) list \<Rightarrow> str \<Rightarrow> (pyval \<times> str) option"
where
  "sample_value 0 s = None"
| "sample_value (Suc n) s =
     (if take 4 s = ascii ''null'' then Some (PNone, drop 4 s)
      else if take 4 s = ascii ''true'' then Some (PBool True, drop 4 s)
      else if take 5 s = ascii ''false'' then Some (PBool False, drop 5 s)
      else if take 1 s = [0x22] then
        (case sample_string s of None \<Rightarrow> None | Some (body, r) \<Rightarrow> Some (PStr body, r))
      else if take 2 s = ascii ''[]'' then Some (PList [], drop 2 s)
      else if take 1 s = [0x5B] then sample_items n [] (drop 1 s)
      else if take 2 s = ascii ''{}'' then Some (PDict [], drop 2 s)
      else if take 1 s = [0x7B] then sample_members n [] (drop 1 s)
      else sample_int s)"
| "sample_items 0 acc s = None"
| "sample_items (Suc n) acc s =
     (case sample_value n s of
        None \<Rightarrow> None
      | Some (v, r) \<Rightarrow>
          if take 1 r = [0x2C] then sample_items n (acc @ [v]) (drop 1 r)
          else if take 1 r = [0x5D] then Some (PList (acc @ [v]), drop 1 r)
          else None)"
| "sample_members 0 acc s = None"
| "sample_members (Suc n) acc s =
     (case sample_string s of
        None \<Rightarrow> None
      | Some (k, r) \<Rightarrow>
          if take 1 r \<noteq> [0x3A] then None
          else
            (case sample_value n (drop 1 r) of
               None \<Rightarrow> None
             | Some (v, r') \<Rightarrow>
                 if take 1 r' = [0x2C] then sample_members n (AList.update k v acc) (drop 1 r')
                 else if take 1 r' = [0x7D] then Some (PDict (AList.update k v acc), drop 1 r')
                 else None))"

definition sample_loads :: json_loads where
  "sample_loads s =
     (case sample_value (length s) s of
        Some (v, []) \<Rightarrow> Some v
      | _ \<Rightarrow> None)"

text \<open>
  Builders for example archives: \<open>u32\<close> is \<open>struct.pack("<I", n)\<close>; an archive has the
  0x38-byte header, one record descriptor of type 0x2B, the header of its ModelData record,
  one object entry and that object's payload.
\<close>

definition u32 :: "nat \<Rightarrow> bytes" where
  "u32 n = [of_nat (n mod 256), of_nat (n div 256 mod 256), of_nat (n div 65536 mod 256),
            of_nat (n div 16777216 mod 256)]"

definition zeros :: "nat \<Rightarrow> bytes" where
  "zeros n = replicate n 0"

definition text_bytes :: "string \<Rightarrow> bytes" where
  "text_bytes s = map of_char s"

definition bgl_header :: "nat \<Rightarrow> bytes" where
  "bgl_header record_count =
     [0x01, 0x02, 0x92, 0x19] @ zeros 12 @ [0x03, 0x18, 0x05, 0x08] @ u32 record_count @ zeros 32"

definition record_desc :: "nat \<Rightarrow> nat \<Rightarrow> bytes" where
  "record_desc record_type start_subsection =
     u32 record_type @ zeros 8 @ u32 start_subsection @ u32 0"

definition glb_body :: "bytes \<Rightarrow> bytes" where
  "glb_body text = zeros 12 @ u32 (length text) @ zeros 4 @ text"

definition glb_block :: "bytes \<Rightarrow> bytes" where
  "glb_block text = GLB0 @ u32 (0x14 + length text) @ glb_body text"

definition glbd_chunk :: "bytes \<Rightarrow> bytes" where
  "glbd_chunk payload = GLBD @ u32 (length payload) @ payload"

definition one_object_archive :: "bytes \<Rightarrow> bytes \<Rightarrow> bytes" where
  "one_object_archive guid mdl =
     bgl_header 1 @ record_desc 0x2B 76 @ (zeros 8 @ u32 92 @ u32 1)
       @ (guid @ u32 24 @ u32 (length mdl)) @ mdl"

definition two_block_payload :: "bytes \<Rightarrow> bytes \<Rightarrow> bytes" where
  "two_block_payload text1 text2 = RIFF @ zeros 4 @ glbd_chunk (glb_block text1 @ glb_block text2)"

definition two_block_archive :: "bytes \<Rightarrow> bytes \<Rightarrow> bytes \<Rightarrow> bytes" where
  "two_block_archive guid text1 text2 = one_object_archive guid (two_block_payload text1 text2)"

definition two_chunk_archive :: "bytes \<Rightarrow> bytes \<Rightarrow> bytes \<Rightarrow> bytes" where
  "two_chunk_archive guid text1 text2 =
     one_object_archive guid
       (RIFF @ zeros 4 @ glbd_chunk (glb_block text1) @ glbd_chunk (glb_block text2))"

definition skip_payload :: bytes where
  "skip_payload =
     RIFF @ zeros 4 @ GLBD @ u32 12 @ zeros 4 @ glbd_chunk (glb_block (text_bytes ''{\"a\":1}''))"



definition null_block :: bytes where
  "null_block = glb_body (text_bytes ''null'')"

definition st0 :: out where
  "st0 = \<lparr>json_count = 0, written = []\<rparr>"

definition sample_guid :: bytes where
  "sample_guid = [0x00, 0x11, 0x22, 0x33, 0x44, 0x55, 0x66, 0x77,
                  0x88, 0x99, 0xAA, 0xBB, 0xCC, 0xDD, 0xEE, 0xFF]"

definition bad_archive :: bytes where
  "bad_archive = bgl_header 1 @ record_desc 0x2B 64"

section \<open>Reads and slices\<close>

lemma replicate_unfold: "replicate (numeral k) (z::byte) = z # replicate (pred_numeral k) z"
  by (simp add: numeral_eq_Suc)

lemmas sample_defs =
  sample_loads_def sample_string_def sample_int_def is_digit_def digits_value_def ascii_def

lemmas input_defs =
  u32_def zeros_def text_bytes_def bgl_header_def record_desc_def glb_body_def glb_block_def
  glbd_chunk_def one_object_archive_def two_block_payload_def two_block_archive_def
  sample_guid_def st0_def GLB0_def GLBD_def RIFF_def replicate_unfold

lemmas run_defs =
  pyslice_def read_uint32_def validate_bgl_header_def clean_json_string_def py_strip_def
  py_isspace_def extract_json_from_glb_def hex_def hex_digit_def Let_def
  block_scan.simps chunk_scan.simps object_loop.simps process_bgl_file_def

lemma length_pyslice: "length (pyslice xs a b) = min (b - a) (length xs - a)"
  by (simp add: pyslice_def)

lemma unpack_u32_len4: "length s = 4 \<Longrightarrow> \<exists>v. unpack_u32 s = Inr v"
  by (cases s rule: unpack_u32.cases) auto

lemma unpack_u32_not4: "length s \<noteq> 4 \<Longrightarrow> unpack_u32 s = Inl StructError"
  by (cases s rule: unpack_u32.cases) auto

lemma read_uint32_ok: "offset + 4 \<le> length data \<Longrightarrow> \<exists>v. read_uint32 data offset = Inr v"
  unfolding read_uint32_def by (rule unpack_u32_len4) (simp add: length_pyslice)

lemma read_uint32_err: "length data < offset + 4 \<Longrightarrow> read_uint32 data offset = Inl StructError"
  unfolding read_uint32_def by (rule unpack_u32_not4) (simp add: length_pyslice)

lemma extract_no_raise: "\<exists>v. extract_json_from_glb loads b = Inr v"
proof (cases "length b < 0x14")
  case True
  then show ?thesis by (simp add: extract_json_from_glb_def)
next
  case False
  then have "0x0C + 4 \<le> length b" by simp
  from read_uint32_ok [OF this] obtain n where "read_uint32 b 0x0C = Inr n" ..
  then show ?thesis
    by (simp add: extract_json_from_glb_def Let_def split: option.splits)
qed

lemma block_scan_returns:
  "\<exists>st'. block_scan loads mdl guid i chunk_size j glb_index st = Some (Inr st')"
proof (induction "length mdl - j" arbitrary: j glb_index st rule: less_induct)
  case less
  show ?case
  proof (cases "j < min (i + 8 + chunk_size) (length mdl) \<and> j + 8 \<le> length mdl")
    case False
    then show ?thesis by (subst block_scan.simps) auto
  next
    case True
    then have lt: "j < length mdl" and fit: "j + 8 \<le> length mdl" by auto
    have step4: "\<exists>st'. block_scan loads mdl guid i chunk_size (j + 4) g s = Some (Inr st')" for g s
      using lt by (intro less.hyps) arith
    show ?thesis
    proof (cases "pyslice mdl j (j + 4) = GLB0")
      case False
      with True step4 [of glb_index st] show ?thesis by (subst block_scan.simps) auto
    next
      case sig: True
      from fit have "(j + 4) + 4 \<le> length mdl" by simp
      from read_uint32_ok [OF this] obtain glb_size
        where rd: "read_uint32 mdl (j + 4) = Inr glb_size" ..
      have stepB: "\<exists>st'. block_scan loads mdl guid i chunk_size (j + (8 + glb_size)) g s = Some (Inr st')" for g s
        using lt by (intro less.hyps) arith
      obtain v where ex: "extract_json_from_glb loads (pyslice mdl (j + 8) (j + 8 + glb_size)) = Inr v"
        using extract_no_raise by blast
      show ?thesis
        using True sig rd ex step4 [of glb_index st] stepB
        by (subst block_scan.simps) (auto simp: Let_def)
    qed
  qed
qed

lemma chunk_scan_returns:
  "\<exists>st'. chunk_scan loads mdl guid i st = Some (Inr st')"
proof (induction "length mdl - i" arbitrary: i st rule: less_induct)
  case less
  show ?case
  proof (cases "i + 4 < length mdl")
    case False
    then show ?thesis by (subst chunk_scan.simps) simp
  next
    case lt: True
    have step: "\<exists>st'. chunk_scan loads mdl guid (i + k + 4) s = Some (Inr st')" for k s
      using lt by (intro less.hyps) arith
    show ?thesis
    proof (cases "pyslice mdl i (i + 4) = GLBD")
      case False
      with lt step [of 0 st] show ?thesis by (subst chunk_scan.simps) simp
    next
      case tag: True
      show ?thesis
      proof (cases "i + 8 > length mdl")
        case True
        with lt tag show ?thesis by (subst chunk_scan.simps) simp
      next
        case False
        then have "(i + 4) + 4 \<le> length mdl" by simp
        from read_uint32_ok [OF this] obtain chunk_size
          where rd: "read_uint32 mdl (i + 4) = Inr chunk_size" ..
        obtain st1 where bs: "block_scan loads mdl guid i chunk_size (i + 8) 0 st = Some (Inr st1)"
          using block_scan_returns by blast
        from lt tag False rd bs step [of chunk_size st1] show ?thesis
          by (subst chunk_scan.simps) simp
      qed
    qed
  qed
qed

lemma object_loop_returns:
  "\<exists>st'. object_loop loads data subrec_offset subrec_size objects_read bytes_read st = Some (Inr st')"
proof (induction "subrec_size - bytes_read" arbitrary: objects_read bytes_read st rule: less_induct)
  case less
  define obj_offset where "obj_offset = subrec_offset + 24 * objects_read"
  show ?case
  proof (cases "bytes_read < subrec_size \<and> obj_offset + 24 \<le> length data")
    case False
    then show ?thesis
      by (subst object_loop.simps) (auto simp: obj_offset_def Let_def)
  next
    case True
    then have lt: "bytes_read < subrec_size" and fit: "obj_offset + 24 \<le> length data" by auto
    from fit have "(obj_offset + 16) + 4 \<le> length data" by simp
    from read_uint32_ok [OF this] obtain start
      where rd1: "read_uint32 data (obj_offset + 16) = Inr start" ..
    from fit have "(obj_offset + 20) + 4 \<le> length data" by simp
    from read_uint32_ok [OF this] obtain msize
      where rd2: "read_uint32 data (obj_offset + 20) = Inr msize" ..
    have step: "\<exists>st'. object_loop loads data subrec_offset subrec_size (objects_read + 1)
                  (bytes_read + (msize + 24)) s = Some (Inr st')" for s
      using lt by (intro less.hyps) arith
    obtain st1 where cs: "chunk_scan loads
        (pyslice data (subrec_offset + start) (subrec_offset + start + msize))
        (hex (pyslice data obj_offset (obj_offset + 16))) 8 st = Some (Inr st1)"
      using chunk_scan_returns by blast
    from True rd1 rd2 cs step [of st] step [of st1] show ?thesis
      by (subst object_loop.simps) (auto simp: obj_offset_def [symmetric] Let_def)
  qed
qed

lemma find_model_data_ok: "\<exists>offs. find_model_data n data offset acc = Inr offs"
proof (induction n arbitrary: offset acc)
  case 0
  show ?case by simp
next
  case (Suc n)
  show ?case
  proof (cases "offset + 0x14 > length data")
    case True
    then show ?thesis by simp
  next
    case False
    then have a: "offset + 4 \<le> length data" and b: "(offset + 0x0C) + 4 \<le> length data"
      and c: "(offset + 0x10) + 4 \<le> length data" by simp_all
    from read_uint32_ok [OF a] obtain t where rt: "read_uint32 data offset = Inr t" ..
    from read_uint32_ok [OF b] obtain s where rs: "read_uint32 data (offset + 0x0C) = Inr s" ..
    from read_uint32_ok [OF c] obtain z where rz: "read_uint32 data (offset + 0x10) = Inr z" ..
    from False rt rs rz Suc.IH show ?thesis by simp
  qed
qed

lemma process_records_terminates: "\<exists>r. process_records loads data offs st = Some r"
proof (induction offs arbitrary: st)
  case Nil
  show ?case by simp
next
  case (Cons m rest)
  show ?case
  proof (cases "read_uint32 data (m + 8)")
    case (Inl e)
    with Cons.IH [of st] show ?thesis by simp
  next
    case r1: (Inr so)
    show ?thesis
    proof (cases "read_uint32 data (m + 12)")
      case (Inl e)
      with r1 Cons.IH [of st] show ?thesis by simp
    next
      case r2: (Inr ss)
      obtain st1 where "object_loop loads data so ss 0 0 st = Some (Inr st1)"
        using object_loop_returns by blast
      with r1 r2 Cons.IH [of st] Cons.IH [of st1] show ?thesis by simp
    qed
  qed
qed


lemma length_clean_json_string: "length (clean_json_string s) = length s"
  by (simp add: clean_json_string_def)

lemma clean_json_string_printable:
  "\<forall>c \<in> set (clean_json_string s). 0x20 \<le> c \<and> c \<le> 0x7E"
  by (auto simp: clean_json_string_def)


lemma utf8_decode_ignore_ascii:
  "\<forall>c \<in> set s. c < 0x80 \<Longrightarrow> utf8_decode_ignore s = map unat s"
  by (induction s) simp_all

lemma utf8_decode_ignore_clean:
  "utf8_decode_ignore (clean_json_string s) = map unat (clean_json_string s)"
proof (rule utf8_decode_ignore_ascii, rule ballI)
  fix c assume "c \<in> set (clean_json_string s)"
  with clean_json_string_printable have "c \<le> 0x7E" by blast
  also have "(0x7E :: byte) < 0x80" by simp
  finally show "c < 0x80" .
qed

section \<open>Termination\<close>

text \<open>
  C10: for every input byte buffer every scanning loop of \<open>process_bgl_file\<close> ends. The block
  scan and the chunk scan move their cursor forward by at least 4 in each iteration that does
  not leave the loop, the object-entry loop moves its byte counter forward by at least 24, and
  the two \<open>for\<close> loops run over finite sequences; so each loop, and the whole function,
  returns or raises, and never runs forever.
\<close>

theorem all_loops_terminate:
  "(\<exists>r. block_scan loads mdl guid i chunk_size j glb_index st = Some r)
   \<and> (\<exists>r. chunk_scan loads mdl guid i st = Some r)
   \<and> (\<exists>r. object_loop loads data subrec_offset subrec_size objects_read bytes_read st = Some r)
   \<and> (\<exists>r. process_bgl_file loads data = Some r)"
proof -
  have "\<exists>r. process_bgl_file loads data = Some r"
  proof (cases "length data < 0x38 \<or> \<not> validate_bgl_header data")
    case True
    then show ?thesis by (auto simp: process_bgl_file_def)
  next
    case False
    then have "0x14 + 4 \<le> length data" by simp
    from read_uint32_ok [OF this] obtain n where rn: "read_uint32 data 0x14 = Inr n" ..
    obtain offs where fm: "find_model_data n data 0x38 [] = Inr offs"
      using find_model_data_ok by blast
    from False rn fm process_records_terminates show ?thesis
      by (simp add: process_bgl_file_def)
  qed
  with block_scan_returns [of loads mdl guid i chunk_size j glb_index st]
    chunk_scan_returns [of loads mdl guid i st]
    object_loop_returns [of loads data subrec_offset subrec_size objects_read bytes_read st]
  show ?thesis by blast
qed

section \<open>Rejected archives\<close>

text \<open>
  C4: for every byte buffer shorter than the 0x38-byte header, or whose bytes [0,4) differ
  from 01 02 92 19, or whose bytes [0x10,0x14) differ from 03 18 05 08, \<open>process_bgl_file\<close>
  returns the count 0 and writes no file.
\<close>

theorem invalid_header_extracts_nothing:
  "length data < 0x38 \<or> pyslice data 0 4 \<noteq> [0x01, 0x02, 0x92, 0x19]
     \<or> pyslice data 0x10 0x14 \<noteq> [0x03, 0x18, 0x05, 0x08]
   \<Longrightarrow> process_bgl_file loads data = Some (Inr \<lparr>json_count = 0, written = []\<rparr>)"
  by (auto simp: process_bgl_file_def validate_bgl_header_def)

theorem invalid_header_extracts_nothing_witness:
  "(length ([0x01, 0x02, 0x92, 0x19] @ zeros 56) < 0x38
      \<or> pyslice ([0x01, 0x02, 0x92, 0x19] @ zeros 56) 0 4 \<noteq> [0x01, 0x02, 0x92, 0x19]
      \<or> pyslice ([0x01, 0x02, 0x92, 0x19] @ zeros 56) 0x10 0x14 \<noteq> [0x03, 0x18, 0x05, 0x08])
   \<and> process_bgl_file sample_loads ([0x01, 0x02, 0x92, 0x19] @ zeros 56)
       = Some (Inr \<lparr>json_count = 0, written = []\<rparr>)"
  using invalid_header_extracts_nothing [of "[0x01, 0x02, 0x92, 0x19] @ zeros 56" sample_loads]
  by (simp add: zeros_def pyslice_def replicate_unfold)

section \<open>The unguarded read of the subrecord size\<close>

text \<open>
  Every read of \<open>process_bgl_file\<close> but one is guarded by a length test that covers it. The
  test \<open>mdl_offset + 12 > len(data)\<close> covers the read at \<open>mdl_offset + 8\<close> only: the read
  at \<open>mdl_offset + 12\<close> needs \<open>mdl_offset + 16\<close> bytes. When every retained offset is either
  skipped by the test or leaves 16 bytes, the loop over the records does not raise.
\<close>

lemma process_records_no_raise:
  "\<forall>m \<in> set offs. length data < m + 12 \<or> m + 16 \<le> length data
   \<Longrightarrow> \<exists>st'. process_records loads data offs st = Some (Inr st')"
proof (induction offs arbitrary: st)
  case Nil
  show ?case by simp
next
  case (Cons m rest)
  then have IH: "\<exists>st'. process_records loads data rest s = Some (Inr st')" for s by simp
  show ?case
  proof (cases "length data < m + 12")
    case True
    with IH [of st] show ?thesis by simp
  next
    case False
    with Cons.prems have fit: "m + 16 \<le> length data" by simp
    then have "(m + 8) + 4 \<le> length data" and "(m + 12) + 4 \<le> length data" by simp_all
    then obtain so ss where r1: "read_uint32 data (m + 8) = Inr so"
      and r2: "read_uint32 data (m + 12) = Inr ss"
      using read_uint32_ok by blast
    obtain st1 where "object_loop loads data so ss 0 0 st = Some (Inr st1)"
      using object_loop_returns by blast
    with False r1 r2 IH [of st1] show ?thesis by simp
  qed
qed

lemma process_bgl_file_raises_only_there:
  assumes "process_bgl_file loads data = Some (Inl e)"
  shows "\<exists>n offs m. read_uint32 data 0x14 = Inr n \<and> find_model_data n data 0x38 [] = Inr offs
           \<and> m \<in> set offs \<and> m + 12 \<le> length data \<and> length data < m + 16"
proof -
  from assms have big: "\<not> length data < 0x38" and "validate_bgl_header data"
    by (auto simp: process_bgl_file_def split: if_splits)
  from big have "0x14 + 4 \<le> length data" by simp
  from read_uint32_ok [OF this] obtain n where rn: "read_uint32 data 0x14 = Inr n" ..
  obtain offs where fm: "find_model_data n data 0x38 [] = Inr offs"
    using find_model_data_ok by blast
  from assms big \<open>validate_bgl_header data\<close> rn fm
  have pr: "process_records loads data offs \<lparr>json_count = 0, written = []\<rparr> = Some (Inl e)"
    by (simp add: process_bgl_file_def)
  have "\<not> (\<forall>m \<in> set offs. length data < m + 12 \<or> m + 16 \<le> length data)"
  proof
    assume "\<forall>m \<in> set offs. length data < m + 12 \<or> m + 16 \<le> length data"
    from process_records_no_raise [OF this, of loads "\<lparr>json_count = 0, written = []\<rparr>"] pr
    show False by auto
  qed
  then obtain m where "m \<in> set offs" "m + 12 \<le> length data" "length data < m + 16"
    by (auto simp: not_less not_le)
  with rn fm show ?thesis by blast
qed

text \<open>
  C1: no exception leaves \<open>process_bgl_file\<close>, whatever the byte buffer. The code breaks
  this on \<open>bad_archive\<close>, a 76-byte archive with a valid header and one ModelData record
  whose offset is 64: the test \<open>64 + 12 > 76\<close> fails, the read at offset 72 succeeds, and the
  read at offset 76 is handed an empty slice, on which \<open>struct.unpack\<close> raises.
\<close>

theorem process_bgl_file_raises_on_short_record:
  "process_bgl_file loads bad_archive = Some (Inl StructError)"
  by (simp add: bad_archive_def bgl_header_def record_desc_def zeros_def u32_def
      process_bgl_file_def validate_bgl_header_def pyslice_def read_uint32_def)

section \<open>One iteration of each scan\<close>

lemma block_scan_step:
  assumes "j < min (i + 8 + chunk_size) (length mdl)" and "j + 8 \<le> length mdl"
  shows "block_scan loads mdl guid i chunk_size j glb_index st =
     (if pyslice mdl j (j + 4) = GLB0 then
        (case read_uint32 mdl (j + 4) of
           Inl e \<Rightarrow> Some (Inl e)
         | Inr glb_size \<Rightarrow>
             if j + 8 + glb_size > length mdl
             then block_scan loads mdl guid i chunk_size (j + 4) glb_index st
             else
               (case extract_json_from_glb loads (pyslice mdl (j + 8) (j + 8 + glb_size)) of
                  Inl e \<Rightarrow> Some (Inl e)
                | Inr json_obj \<Rightarrow>
                    if truthy json_obj
                    then block_scan loads mdl guid i chunk_size (j + (8 + glb_size))
                           (glb_index + 1)
                           (st\<lparr>json_count := json_count st + 1,
                               written := written st @ [(guid, glb_index, json_obj)]\<rparr>)
                    else block_scan loads mdl guid i chunk_size (j + (8 + glb_size))
                           glb_index st))
      else block_scan loads mdl guid i chunk_size (j + 4) glb_index st)"
  using assms by (subst block_scan.simps) (simp add: Let_def split: sum.splits)

lemma block_scan_stop:
  "\<not> j < min (i + 8 + chunk_size) (length mdl) \<or> length mdl < j + 8
   \<Longrightarrow> block_scan loads mdl guid i chunk_size j glb_index st = Some (Inr st)"
  by (subst block_scan.simps) auto

lemma chunk_scan_step:
  assumes "i + 8 \<le> length mdl"
  shows "chunk_scan loads mdl guid i st =
     (if pyslice mdl i (i + 4) = GLBD then
        (case read_uint32 mdl (i + 4) of
           Inl e \<Rightarrow> Some (Inl e)
         | Inr chunk_size \<Rightarrow>
             (case block_scan loads mdl guid i chunk_size (i + 8) 0 st of
                None \<Rightarrow> None
              | Some (Inl e) \<Rightarrow> Some (Inl e)
              | Some (Inr st') \<Rightarrow> chunk_scan loads mdl guid (i + chunk_size + 4) st'))
      else chunk_scan loads mdl guid (i + 4) st)"
  using assms by (subst chunk_scan.simps) simp

lemma numbered_Cons:
  "map (\<lambda>k. (guid, g + k, (v # vs) ! k)) [0..<Suc (length vs)]
     = (guid, g, v) # map (\<lambda>k. (guid, Suc g + k, vs ! k)) [0..<length vs]"
  by (simp add: map_upt_Suc del: upt_Suc)

lemma block_scan_written:
  "block_scan loads mdl guid i chunk_size j g st = Some (Inr st') \<Longrightarrow>
   \<exists>vs. written st' = written st @ map (\<lambda>k. (guid, g + k, vs ! k)) [0..<length vs]
      \<and> json_count st' = json_count st + length vs
      \<and> (\<forall>v \<in> set vs. truthy v)"
proof (induction "length mdl - j" arbitrary: j g st rule: less_induct)
  case less
  show ?case
  proof (cases "j < min (i + 8 + chunk_size) (length mdl) \<and> j + 8 \<le> length mdl")
    case False
    then have "block_scan loads mdl guid i chunk_size j g st = Some (Inr st)"
      by (intro block_scan_stop) auto
    with less.prems have "st' = st" by simp
    then show ?thesis by (intro exI [of _ "[]"]) simp
  next
    case True
    then have c1: "j < min (i + 8 + chunk_size) (length mdl)" and c2: "j + 8 \<le> length mdl"
      by auto
    note step = block_scan_step [OF c1 c2, of loads guid g st]
    have IH: "block_scan loads mdl guid i chunk_size j' g' s = Some (Inr st') \<Longrightarrow> j < j' \<Longrightarrow>
       \<exists>vs. written st' = written s @ map (\<lambda>k. (guid, g' + k, vs ! k)) [0..<length vs]
          \<and> json_count st' = json_count s + length vs \<and> (\<forall>v \<in> set vs. truthy v)" for j' g' s
      using c1 by (intro less.hyps) auto
    show ?thesis
    proof (cases "pyslice mdl j (j + 4) = GLB0")
      case False
      with step less.prems
      have "block_scan loads mdl guid i chunk_size (j + 4) g st = Some (Inr st')" by simp
      from IH [OF this] show ?thesis by simp
    next
      case sig: True
      from c2 have "(j + 4) + 4 \<le> length mdl" by simp
      from read_uint32_ok [OF this] obtain glb_size
        where rd: "read_uint32 mdl (j + 4) = Inr glb_size" ..
      obtain v where ex: "extract_json_from_glb loads (pyslice mdl (j + 8) (j + 8 + glb_size)) = Inr v"
        using extract_no_raise by blast
      show ?thesis
      proof (cases "j + 8 + glb_size > length mdl")
        case True
        with step sig rd less.prems
        have "block_scan loads mdl guid i chunk_size (j + 4) g st = Some (Inr st')" by simp
        from IH [OF this] show ?thesis by simp
      next
        case inb: False
        show ?thesis
        proof (cases "truthy v")
          case False
          with step sig rd ex inb less.prems
          have "block_scan loads mdl guid i chunk_size (j + (8 + glb_size)) g st = Some (Inr st')"
            by simp
          from IH [OF this] show ?thesis by simp
        next
          case tr: True
          define s1 where "s1 = st\<lparr>json_count := json_count st + 1,
                               written := written st @ [(guid, g, v)]\<rparr>"
          from step sig rd ex inb tr less.prems
          have "block_scan loads mdl guid i chunk_size (j + (8 + glb_size)) (g + 1) s1 = Some (Inr st')"
            by (simp add: s1_def)
          from IH [OF this] obtain vs
            where w: "written st' = written s1 @ map (\<lambda>k. (guid, g + 1 + k, vs ! k)) [0..<length vs]"
              and c: "json_count st' = json_count s1 + length vs"
              and t: "\<forall>v \<in> set vs. truthy v"
            by auto
          have "written st' = written st @ map (\<lambda>k. (guid, g + k, (v # vs) ! k)) [0..<length (v # vs)]"
            using w by (simp add: s1_def numbered_Cons del: upt_Suc)
          moreover have "json_count st' = json_count st + length (v # vs)"
            using c by (simp add: s1_def)
          moreover have "\<forall>x \<in> set (v # vs). truthy x" using t tr by simp
          ultimately show ?thesis by blast
        qed
      qed
    qed
  qed
qed



section \<open>The decoder\<close>

text \<open>
  As first stated, the claim lets \<open>extract_json_from_glb\<close> return \<open>None\<close> only for a
  short block, an out-of-bounds length or a failed parse. On \<open>null_block\<close>, whose JSON
  region is the four bytes \<open>null\<close>, none of the three holds and the result is \<open>None\<close>: the
  parse succeeds and yields \<open>None\<close>.
\<close>

theorem null_text_returns_none:
  "\<not> length null_block < 0x14
   \<and> read_uint32 null_block 0x0C = Inr 4
   \<and> \<not> length null_block < 0x14 + 4
   \<and> sample_loads (py_strip (utf8_decode_ignore
         (clean_json_string (pyslice null_block 0x14 (0x14 + 4))))) = Some PNone
   \<and> extract_json_from_glb sample_loads null_block = Inr PNone"
  by (simp add: null_block_def input_defs run_defs sample_defs)


text \<open>
  C5 (amended): \<open>extract_json_from_glb\<close> never raises. It returns \<open>None\<close> when the block
  has fewer than 0x14 bytes and when 0x14 plus the length read at offset 0x0C exceeds the
  length of the block. Otherwise the slice [0x14, 0x14 + json_length) is cleaned byte by byte
  (a byte outside [0x20, 0x7E] becomes 0x20, the length is kept), the cleaned bytes decode to
  the same code points, the text is stripped and parsed, and the function returns the parsed
  value, or \<open>None\<close> when the parse fails. So in bounds it returns \<open>None\<close> exactly when the
  parse fails or the text parses to JSON \<open>null\<close>, which \<open>json.loads\<close> returns as \<open>None\<close>.
\<close>

theorem extract_json_from_glb_result:
  "(length b < 0x14 \<longrightarrow> extract_json_from_glb loads b = Inr PNone)
   \<and> (0x14 \<le> length b \<longrightarrow>
       (\<exists>n. read_uint32 b 0x0C = Inr n
          \<and> (length b < 0x14 + n \<longrightarrow> extract_json_from_glb loads b = Inr PNone)
          \<and> (0x14 + n \<le> length b \<longrightarrow>
               (let cleaned = clean_json_string (pyslice b 0x14 (0x14 + n));
                    parsed = loads (py_strip (utf8_decode_ignore cleaned))
                in length cleaned = n
                 \<and> (\<forall>k < n. cleaned ! k =
                       (if b ! (0x14 + k) < 0x20 \<or> 0x7E < b ! (0x14 + k) then 0x20
                        else b ! (0x14 + k)))
                 \<and> utf8_decode_ignore cleaned = map unat cleaned
                 \<and> extract_json_from_glb loads b
                     = Inr (case parsed of None \<Rightarrow> PNone | Some v \<Rightarrow> v)
                 \<and> (extract_json_from_glb loads b = Inr PNone
                      \<longleftrightarrow> parsed = None \<or> parsed = Some PNone)))))"
proof (intro conjI impI)
  assume "length b < 0x14"
  then show "extract_json_from_glb loads b = Inr PNone"
    by (simp add: extract_json_from_glb_def)
next
  assume len: "0x14 \<le> length b"
  then have "0x0C + 4 \<le> length b" by simp
  from read_uint32_ok [OF this] obtain n where rd: "read_uint32 b 0x0C = Inr n" ..
  have over: "length b < 0x14 + n \<Longrightarrow> extract_json_from_glb loads b = Inr PNone"
    using len rd by (simp add: extract_json_from_glb_def)
  have inb: "let cleaned = clean_json_string (pyslice b 0x14 (0x14 + n));
                 parsed = loads (py_strip (utf8_decode_ignore cleaned))
             in length cleaned = n
              \<and> (\<forall>k < n. cleaned ! k =
                    (if b ! (0x14 + k) < 0x20 \<or> 0x7E < b ! (0x14 + k) then 0x20
                     else b ! (0x14 + k)))
              \<and> utf8_decode_ignore cleaned = map unat cleaned
              \<and> extract_json_from_glb loads b
                  = Inr (case parsed of None \<Rightarrow> PNone | Some v \<Rightarrow> v)
              \<and> (extract_json_from_glb loads b = Inr PNone
                   \<longleftrightarrow> parsed = None \<or> parsed = Some PNone)"
    if fit: "0x14 + n \<le> length b"
  proof -
    define cleaned where "cleaned = clean_json_string (pyslice b 0x14 (0x14 + n))"
    define parsed where "parsed = loads (py_strip (utf8_decode_ignore cleaned))"
    have l: "length cleaned = n"
      using fit by (simp add: cleaned_def length_clean_json_string length_pyslice)
    have e: "\<forall>k < n. cleaned ! k =
        (if b ! (0x14 + k) < 0x20 \<or> 0x7E < b ! (0x14 + k) then 0x20 else b ! (0x14 + k))"
      using fit by (simp add: cleaned_def clean_json_string_def pyslice_def)
    have d: "utf8_decode_ignore cleaned = map unat cleaned"
      unfolding cleaned_def by (rule utf8_decode_ignore_clean)
    have r: "extract_json_from_glb loads b = Inr (case parsed of None \<Rightarrow> PNone | Some v \<Rightarrow> v)"
      using len rd fit
      by (simp add: extract_json_from_glb_def Let_def parsed_def cleaned_def split: option.splits)
    have x: "extract_json_from_glb loads b = Inr PNone \<longleftrightarrow> parsed = None \<or> parsed = Some PNone"
      unfolding r by (cases parsed) auto
    from l e d r x show ?thesis
      unfolding Let_def cleaned_def [symmetric] parsed_def [symmetric] by blast
  qed
  from rd over inb
  show "\<exists>n. read_uint32 b 0x0C = Inr n
          \<and> (length b < 0x14 + n \<longrightarrow> extract_json_from_glb loads b = Inr PNone)
          \<and> (0x14 + n \<le> length b \<longrightarrow>
               (let cleaned = clean_json_string (pyslice b 0x14 (0x14 + n));
                    parsed = loads (py_strip (utf8_decode_ignore cleaned))
                in length cleaned = n
                 \<and> (\<forall>k < n. cleaned ! k =
                       (if b ! (0x14 + k) < 0x20 \<or> 0x7E < b ! (0x14 + k) then 0x20
                        else b ! (0x14 + k)))
                 \<and> utf8_decode_ignore cleaned = map unat cleaned
                 \<and> extract_json_from_glb loads b
                     = Inr (case parsed of None \<Rightarrow> PNone | Some v \<Rightarrow> v)
                 \<and> (extract_json_from_glb loads b = Inr PNone
                      \<longleftrightarrow> parsed = None \<or> parsed = Some PNone)))"
    by blast
qed

theorem extract_json_from_glb_result_witness:
  "0x14 \<le> length (glb_body (text_bytes ''{\"a\":1}''))
   \<and> read_uint32 (glb_body (text_bytes ''{\"a\":1}'')) 0x0C = Inr 7
   \<and> 0x14 + 7 \<le> length (glb_body (text_bytes ''{\"a\":1}''))
   \<and> extract_json_from_glb sample_loads (glb_body (text_bytes ''{\"a\":1}''))
       = Inr (PDict [(ascii ''a'', PInt 1)])"
  using extract_json_from_glb_result [of "glb_body (text_bytes ''{\"a\":1}'')" sample_loads]
  by (simp add: input_defs run_defs sample_defs)

section \<open>The block scan\<close>




text \<open>
  C9: a block that fits and whose decoded value is falsy (\<open>None\<close>, \<open>False\<close>, 0, an empty
  string, list or dict) leaves the count, the files and the ordinal as they are; a truthy
  value is written under the current ordinal, and count and ordinal go up by one.
\<close>

theorem falsy_value_not_emitted:
  assumes "j < min (i + 8 + chunk_size) (length mdl)"
    and "pyslice mdl j (j + 4) = GLB0"
    and "read_uint32 mdl (j + 4) = Inr glb_size"
    and "j + 8 + glb_size \<le> length mdl"
    and "extract_json_from_glb loads (pyslice mdl (j + 8) (j + 8 + glb_size)) = Inr v"
  shows "(\<not> truthy v \<longrightarrow>
            block_scan loads mdl guid i chunk_size j glb_index st
              = block_scan loads mdl guid i chunk_size (j + 8 + glb_size) glb_index st)
       \<and> (truthy v \<longrightarrow>
            block_scan loads mdl guid i chunk_size j glb_index st
              = block_scan loads mdl guid i chunk_size (j + 8 + glb_size) (glb_index + 1)
                  (st\<lparr>json_count := json_count st + 1,
                      written := written st @ [(guid, glb_index, v)]\<rparr>))"
proof -
  from assms(4) have fit: "j + 8 \<le> length mdl" by simp
  show ?thesis
    using assms by (subst (1 2) block_scan_step [OF assms(1) fit]) (simp add: add.assoc)
qed

theorem falsy_value_not_emitted_witness:
  "16 < min (8 + 8 + 65) (length (two_block_payload (text_bytes ''{}'') (text_bytes ''{\"a\":1}'')))
   \<and> pyslice (two_block_payload (text_bytes ''{}'') (text_bytes ''{\"a\":1}'')) 16 (16 + 4) = GLB0
   \<and> read_uint32 (two_block_payload (text_bytes ''{}'') (text_bytes ''{\"a\":1}'')) (16 + 4) = Inr 22
   \<and> 16 + 8 + 22 \<le> length (two_block_payload (text_bytes ''{}'') (text_bytes ''{\"a\":1}''))
   \<and> extract_json_from_glb sample_loads
         (pyslice (two_block_payload (text_bytes ''{}'') (text_bytes ''{\"a\":1}''))
            (16 + 8) (16 + 8 + 22)) = Inr (PDict [])
   \<and> \<not> truthy (PDict [])
   \<and> block_scan sample_loads (two_block_payload (text_bytes ''{}'') (text_bytes ''{\"a\":1}''))
         ''g'' 8 65 16 0 st0
       = block_scan sample_loads (two_block_payload (text_bytes ''{}'') (text_bytes ''{\"a\":1}''))
           ''g'' 8 65 (16 + 8 + 22) 0 st0"
proof -
  let ?P = "two_block_payload (text_bytes ''{}'') (text_bytes ''{\"a\":1}'')"
  have h1: "16 < min (8 + 8 + 65) (length ?P)"
    and h2: "pyslice ?P 16 (16 + 4) = GLB0"
    and h3: "read_uint32 ?P (16 + 4) = Inr 22"
    and h4: "16 + 8 + 22 \<le> length ?P"
    by (simp_all add: input_defs pyslice_def read_uint32_def)
  have h5: "extract_json_from_glb sample_loads (pyslice ?P (16 + 8) (16 + 8 + 22)) = Inr (PDict [])"
    by (simp add: input_defs run_defs sample_defs)
  from falsy_value_not_emitted [OF h1 h2 h3 h4 h5, of "''g''" 0 st0] h1 h2 h3 h4 h5
  show ?thesis by simp
qed

section \<open>The chunk scan\<close>

text \<open>
  As first stated, the claim moves the cursor on by exactly the declared chunk size at a GLBD
  tag. In \<open>skip_payload\<close> the chunk at 8 declares 12 bytes and a second GLBD chunk, holding
  a valid block, starts at 8 + 12 = 20. The block scan of the first chunk writes nothing and
  neither does the whole scan from 8, while a scan that went on at 20 writes one value: the
  tag at 20 is not examined, the next one examined is at 24.
\<close>

theorem chunk_cursor_skips_size_plus_4:
  "pyslice skip_payload 8 (8 + 4) = GLBD
   \<and> read_uint32 skip_payload (8 + 4) = Inr 12
   \<and> block_scan sample_loads skip_payload ''g'' 8 12 (8 + 8) 0 st0 = Some (Inr st0)
   \<and> chunk_scan sample_loads skip_payload ''g'' 8 st0 = Some (Inr st0)
   \<and> chunk_scan sample_loads skip_payload ''g'' (8 + 12) st0
       = Some (Inr \<lparr>json_count = 1, written = [(''g'', 0, PDict [(ascii ''a'', PInt 1)])]\<rparr>)"
  by (simp add: skip_payload_def input_defs run_defs sample_defs)


text \<open>
  C3 (amended): at a cursor \<open>i\<close> with \<open>i < len - 4\<close>, when the tag is not GLBD the cursor
  moves on by exactly 4; when the tag is GLBD and fewer than 8 bytes are left the scan stops;
  when the tag is GLBD and 8 bytes are left the block scan runs on the chunk and the cursor
  moves on by the declared chunk size plus 4 (\<open>i += chunk_size\<close>, then the \<open>i += 4\<close> that
  ends every iteration).
\<close>

theorem chunk_scan_cursor_advance:
  assumes "i + 4 < length mdl"
  shows "(pyslice mdl i (i + 4) \<noteq> GLBD \<longrightarrow>
            chunk_scan loads mdl guid i st = chunk_scan loads mdl guid (i + 4) st)
       \<and> (pyslice mdl i (i + 4) = GLBD \<and> length mdl < i + 8 \<longrightarrow>
            chunk_scan loads mdl guid i st = Some (Inr st))
       \<and> (pyslice mdl i (i + 4) = GLBD \<and> i + 8 \<le> length mdl \<longrightarrow>
            (\<exists>chunk_size st'. read_uint32 mdl (i + 4) = Inr chunk_size
               \<and> block_scan loads mdl guid i chunk_size (i + 8) 0 st = Some (Inr st')
               \<and> chunk_scan loads mdl guid i st
                   = chunk_scan loads mdl guid (i + chunk_size + 4) st'))"
proof (intro conjI impI)
  assume "pyslice mdl i (i + 4) \<noteq> GLBD"
  with assms show "chunk_scan loads mdl guid i st = chunk_scan loads mdl guid (i + 4) st"
    by (subst chunk_scan.simps) simp
next
  assume "pyslice mdl i (i + 4) = GLBD \<and> length mdl < i + 8"
  with assms show "chunk_scan loads mdl guid i st = Some (Inr st)"
    by (subst chunk_scan.simps) simp
next
  assume a: "pyslice mdl i (i + 4) = GLBD \<and> i + 8 \<le> length mdl"
  then have "(i + 4) + 4 \<le> length mdl" by simp
  from read_uint32_ok [OF this] obtain chunk_size
    where rd: "read_uint32 mdl (i + 4) = Inr chunk_size" ..
  obtain st' where bs: "block_scan loads mdl guid i chunk_size (i + 8) 0 st = Some (Inr st')"
    using block_scan_returns by blast
  from a rd bs have "chunk_scan loads mdl guid i st
      = chunk_scan loads mdl guid (i + chunk_size + 4) st'"
    by (subst chunk_scan_step) simp_all
  with rd bs show "\<exists>chunk_size st'. read_uint32 mdl (i + 4) = Inr chunk_size
      \<and> block_scan loads mdl guid i chunk_size (i + 8) 0 st = Some (Inr st')
      \<and> chunk_scan loads mdl guid i st = chunk_scan loads mdl guid (i + chunk_size + 4) st'"
    by blast
qed

theorem chunk_scan_cursor_advance_witness:
  "8 + 4 < length skip_payload
   \<and> pyslice skip_payload 8 (8 + 4) = GLBD
   \<and> 8 + 8 \<le> length skip_payload
   \<and> (\<exists>st'. read_uint32 skip_payload (8 + 4) = Inr 12
         \<and> block_scan sample_loads skip_payload ''g'' 8 12 (8 + 8) 0 st0 = Some (Inr st')
         \<and> chunk_scan sample_loads skip_payload ''g'' 8 st0
             = chunk_scan sample_loads skip_payload ''g'' (8 + 12 + 4) st')"
proof -
  have h: "8 + 4 < length skip_payload"
    and t: "pyslice skip_payload 8 (8 + 4) = GLBD"
    and f: "8 + 8 \<le> length skip_payload"
    and rd: "read_uint32 skip_payload (8 + 4) = Inr 12"
    by (simp_all add: skip_payload_def input_defs pyslice_def read_uint32_def)
  from chunk_scan_cursor_advance [OF h, of sample_loads "''g''" st0] t f
  obtain chunk_size st' where "read_uint32 skip_payload (8 + 4) = Inr chunk_size"
    and "block_scan sample_loads skip_payload ''g'' 8 chunk_size (8 + 8) 0 st0 = Some (Inr st')"
    and "chunk_scan sample_loads skip_payload ''g'' 8 st0
           = chunk_scan sample_loads skip_payload ''g'' (8 + chunk_size + 4) st'"
    by blast
  with rd h t f show ?thesis by auto
qed

text \<open>
  As first stated, the claim numbers the values of one object entry 0, 1, 2, ... across all
  its GLBD chunks. In \<open>two_chunk_archive\<close> one object holds two GLBD chunks with one valid
  block each, and both values are written under ordinal 0.
\<close>

theorem ordinals_reset_between_chunks:
  "process_bgl_file sample_loads
     (two_chunk_archive sample_guid (text_bytes ''{\"a\":1}'') (text_bytes ''[2]''))
   = Some (Inr \<lparr>json_count = 2,
                written = [(''00112233445566778899aabbccddeeff'', 0, PDict [(ascii ''a'', PInt 1)]),
                           (''00112233445566778899aabbccddeeff'', 0, PList [PInt 2])]\<rparr>)"
  by (simp add: two_chunk_archive_def input_defs run_defs sample_defs)


text \<open>
  C2 (amended): the ordinal is set to 0 at every GLBD chunk, not once per object entry, and
  goes up by one at each value written. So the values written from one chunk are truthy and
  carry the ordinals 0, 1, 2, ... in order, the count goes up by their number, and the scan
  then goes on behind the chunk, where the next GLBD chunk starts at ordinal 0 again.
\<close>

theorem ordinals_restart_per_chunk:
  assumes "i + 8 \<le> length mdl" and "pyslice mdl i (i + 4) = GLBD"
  shows "\<exists>chunk_size vs st'.
       read_uint32 mdl (i + 4) = Inr chunk_size
     \<and> block_scan loads mdl guid i chunk_size (i + 8) 0 st = Some (Inr st')
     \<and> written st' = written st @ map (\<lambda>k. (guid, k, vs ! k)) [0..<length vs]
     \<and> json_count st' = json_count st + length vs
     \<and> (\<forall>v \<in> set vs. truthy v)
     \<and> chunk_scan loads mdl guid i st = chunk_scan loads mdl guid (i + chunk_size + 4) st'"
proof -
  from assms(1) have "(i + 4) + 4 \<le> length mdl" by simp
  from read_uint32_ok [OF this] obtain chunk_size
    where rd: "read_uint32 mdl (i + 4) = Inr chunk_size" ..
  obtain st' where bs: "block_scan loads mdl guid i chunk_size (i + 8) 0 st = Some (Inr st')"
    using block_scan_returns by blast
  from block_scan_written [OF bs] obtain vs
    where "written st' = written st @ map (\<lambda>k. (guid, k, vs ! k)) [0..<length vs]"
      and "json_count st' = json_count st + length vs" and "\<forall>v \<in> set vs. truthy v"
    by auto
  moreover from assms rd bs
  have "chunk_scan loads mdl guid i st = chunk_scan loads mdl guid (i + chunk_size + 4) st'"
    by (subst chunk_scan.simps) simp
  ultimately show ?thesis using rd bs by blast
qed

theorem ordinals_restart_per_chunk_witness:
  "8 + 8 \<le> length (two_block_payload (text_bytes ''{\"a\":1}'') (text_bytes ''[2]''))
   \<and> pyslice (two_block_payload (text_bytes ''{\"a\":1}'') (text_bytes ''[2]'')) 8 (8 + 4) = GLBD
   \<and> (\<exists>chunk_size vs st'.
         read_uint32 (two_block_payload (text_bytes ''{\"a\":1}'') (text_bytes ''[2]'')) (8 + 4)
           = Inr chunk_size
       \<and> block_scan sample_loads (two_block_payload (text_bytes ''{\"a\":1}'') (text_bytes ''[2]''))
           ''g'' 8 chunk_size (8 + 8) 0 st0 = Some (Inr st')
       \<and> written st' = written st0 @ map (\<lambda>k. (''g'', k, vs ! k)) [0..<length vs]
       \<and> json_count st' = json_count st0 + length vs)
   \<and> read_uint32 (two_block_payload (text_bytes ''{\"a\":1}'') (text_bytes ''[2]'')) (8 + 4)
       = Inr 66
   \<and> block_scan sample_loads (two_block_payload (text_bytes ''{\"a\":1}'') (text_bytes ''[2]''))
        ''g'' 8 66 (8 + 8) 0 st0
      = Some (Inr \<lparr>json_count = 2,
                   written = [(''g'', 0, PDict [(ascii ''a'', PInt 1)]),
                              (''g'', 1, PList [PInt 2])]\<rparr>)"
proof -
  let ?P = "two_block_payload (text_bytes ''{\"a\":1}'') (text_bytes ''[2]'')"
  have h1: "8 + 8 \<le> length ?P" and h2: "pyslice ?P 8 (8 + 4) = GLBD"
    and rd: "read_uint32 ?P (8 + 4) = Inr 66"
    by (simp_all add: input_defs pyslice_def read_uint32_def)
  have run: "block_scan sample_loads ?P ''g'' 8 66 (8 + 8) 0 st0
      = Some (Inr \<lparr>json_count = 2,
                   written = [(''g'', 0, PDict [(ascii ''a'', PInt 1)]),
                              (''g'', 1, PList [PInt 2])]\<rparr>)"
    by (simp add: input_defs run_defs sample_defs)
  from ordinals_restart_per_chunk [OF h1 h2, of sample_loads "''g''" st0] h1 h2 rd run
  show ?thesis by blast
qed

section \<open>The object-entry loop\<close>

text \<open>
  C6: the loop over the object entries stops exactly when the byte counter has reached the
  declared subrecord size or the next 24-byte descriptor does not fit in the buffer, and then
  nothing is written. For every entry read, whether its payload is out of bounds, not
  RIFF-framed or scanned, the loop goes on with the entry index one higher and the byte
  counter higher by the declared payload size plus 24; the first two kinds change nothing
  else.
\<close>

theorem object_loop_entry_accounting:
  "(\<not> bytes_read < subrec_size \<or> length data < subrec_offset + 24 * objects_read + 24 \<longrightarrow>
      object_loop loads data subrec_offset subrec_size objects_read bytes_read st = Some (Inr st))
   \<and> (bytes_read < subrec_size \<and> subrec_offset + 24 * objects_read + 24 \<le> length data \<longrightarrow>
      (\<exists>start size st'.
          read_uint32 data (subrec_offset + 24 * objects_read + 16) = Inr start
        \<and> read_uint32 data (subrec_offset + 24 * objects_read + 20) = Inr size
        \<and> object_loop loads data subrec_offset subrec_size objects_read bytes_read st
            = object_loop loads data subrec_offset subrec_size (objects_read + 1)
                (bytes_read + (size + 24)) st'
        \<and> (length data < subrec_offset + start + size \<longrightarrow> st' = st)
        \<and> (subrec_offset + start + size \<le> length data
             \<and> (size < 4 \<or> pyslice (pyslice data (subrec_offset + start)
                                    (subrec_offset + start + size)) 0 4 \<noteq> RIFF)
             \<longrightarrow> st' = st)
        \<and> (subrec_offset + start + size \<le> length data \<and> 4 \<le> size
             \<and> pyslice (pyslice data (subrec_offset + start)
                          (subrec_offset + start + size)) 0 4 = RIFF
             \<longrightarrow> chunk_scan loads
                   (pyslice data (subrec_offset + start) (subrec_offset + start + size))
                   (hex (pyslice data (subrec_offset + 24 * objects_read)
                           (subrec_offset + 24 * objects_read + 16)))
                   8 st = Some (Inr st'))))"
proof (intro conjI impI)
  assume "\<not> bytes_read < subrec_size \<or> length data < subrec_offset + 24 * objects_read + 24"
  then show "object_loop loads data subrec_offset subrec_size objects_read bytes_read st
      = Some (Inr st)"
    by (subst object_loop.simps) (auto simp: Let_def)
next
  define obj_offset where "obj_offset = subrec_offset + 24 * objects_read"
  assume a: "bytes_read < subrec_size \<and> subrec_offset + 24 * objects_read + 24 \<le> length data"
  then have lt: "bytes_read < subrec_size" and fit: "obj_offset + 24 \<le> length data"
    by (simp_all add: obj_offset_def)
  from fit have "(obj_offset + 16) + 4 \<le> length data" by simp
  from read_uint32_ok [OF this] obtain start
    where rd1: "read_uint32 data (obj_offset + 16) = Inr start" ..
  from fit have "(obj_offset + 20) + 4 \<le> length data" by simp
  from read_uint32_ok [OF this] obtain size
    where rd2: "read_uint32 data (obj_offset + 20) = Inr size" ..
  define mdl where "mdl = pyslice data (subrec_offset + start) (subrec_offset + start + size)"
  define guid where "guid = hex (pyslice data obj_offset (obj_offset + 16))"
  obtain st1 where cs: "chunk_scan loads mdl guid 8 st = Some (Inr st1)"
    using chunk_scan_returns by blast
  define skip where "skip \<longleftrightarrow> length data < subrec_offset + start + size
     \<or> length mdl < 4 \<or> pyslice mdl 0 4 \<noteq> RIFF"
  define st' where "st' = (if skip then st else st1)"
  have len: "subrec_offset + start + size \<le> length data \<Longrightarrow> length mdl = size"
    by (simp add: mdl_def length_pyslice)
  have eq: "object_loop loads data subrec_offset subrec_size objects_read bytes_read st
      = object_loop loads data subrec_offset subrec_size (objects_read + 1)
          (bytes_read + (size + 24)) st'"
    using lt fit rd1 rd2 cs
    by (subst object_loop.simps)
       (auto simp: obj_offset_def [symmetric] mdl_def [symmetric] guid_def [symmetric]
          Let_def st'_def skip_def)
  have "length data < subrec_offset + start + size \<longrightarrow> st' = st"
    by (simp add: st'_def skip_def)
  moreover have "subrec_offset + start + size \<le> length data
      \<and> (size < 4 \<or> pyslice mdl 0 4 \<noteq> RIFF) \<longrightarrow> st' = st"
    using len by (auto simp: st'_def skip_def)
  moreover have "subrec_offset + start + size \<le> length data \<and> 4 \<le> size
      \<and> pyslice mdl 0 4 = RIFF \<longrightarrow> chunk_scan loads mdl guid 8 st = Some (Inr st')"
    using len cs by (auto simp: st'_def skip_def)
  ultimately show "\<exists>start size st'.
          read_uint32 data (subrec_offset + 24 * objects_read + 16) = Inr start
        \<and> read_uint32 data (subrec_offset + 24 * objects_read + 20) = Inr size
        \<and> object_loop loads data subrec_offset subrec_size objects_read bytes_read st
            = object_loop loads data subrec_offset subrec_size (objects_read + 1)
                (bytes_read + (size + 24)) st'
        \<and> (length data < subrec_offset + start + size \<longrightarrow> st' = st)
        \<and> (subrec_offset + start + size \<le> length data
             \<and> (size < 4 \<or> pyslice (pyslice data (subrec_offset + start)
                                    (subrec_offset + start + size)) 0 4 \<noteq> RIFF)
             \<longrightarrow> st' = st)
        \<and> (subrec_offset + start + size \<le> length data \<and> 4 \<le> size
             \<and> pyslice (pyslice data (subrec_offset + start)
                          (subrec_offset + start + size)) 0 4 = RIFF
             \<longrightarrow> chunk_scan loads
                   (pyslice data (subrec_offset + start) (subrec_offset + start + size))
                   (hex (pyslice data (subrec_offset + 24 * objects_read)
                           (subrec_offset + 24 * objects_read + 16)))
                   8 st = Some (Inr st'))"
    using rd1 rd2 eq unfolding mdl_def guid_def obj_offset_def by blast
qed

theorem object_loop_entry_accounting_witness:
  "(0::nat) < 1
   \<and> 92 + 24 * 0 + 24
        \<le> length (two_block_archive sample_guid (text_bytes ''{\"a\":1}'') (text_bytes ''[2]''))
   \<and> (\<exists>st'. read_uint32
          (two_block_archive sample_guid (text_bytes ''{\"a\":1}'') (text_bytes ''[2]''))
          (92 + 24 * 0 + 20) = Inr 82
       \<and> object_loop sample_loads
           (two_block_archive sample_guid (text_bytes ''{\"a\":1}'') (text_bytes ''[2]''))
           92 1 0 0 st0
         = object_loop sample_loads
             (two_block_archive sample_guid (text_bytes ''{\"a\":1}'') (text_bytes ''[2]''))
             92 1 (0 + 1) (0 + (82 + 24)) st')"
proof -
  let ?D = "two_block_archive sample_guid (text_bytes ''{\"a\":1}'') (text_bytes ''[2]'')"
  have h: "(0::nat) < 1 \<and> 92 + 24 * 0 + 24 \<le> length ?D"
    and rd: "read_uint32 ?D (92 + 24 * 0 + 20) = Inr 82"
    by (simp_all add: input_defs pyslice_def read_uint32_def)
  from object_loop_entry_accounting [of 0 1 ?D 92 0 sample_loads st0] h
  obtain start size st' where "read_uint32 ?D (92 + 24 * 0 + 20) = Inr size"
    and "object_loop sample_loads ?D 92 1 0 0 st0
           = object_loop sample_loads ?D 92 1 (0 + 1) (0 + (size + 24)) st'"
    by blast
  with rd h show ?thesis by auto
qed

section \<open>An archive with two valid blocks\<close>
















end
